theory Spec2Isabelle
  imports Complex_Main "HOL-Library.AList" "HOL-Library.Sublist"
begin

section \<open>Data model of contextualSpellCheck.py\<close>

text \<open>
  The exceptions the Python code can raise on its own: a dictionary read of a missing key
  (\<^verbatim>\<open>answer[i]\<close>) and \<^verbatim>\<open>len\<close> or the tokenizer applied to an object of the wrong type.
\<close>

datatype error = KeyError | TypeError

text \<open>
  A spaCy token, with the attributes the code reads: \<^verbatim>\<open>token.i\<close>, \<^verbatim>\<open>token.text\<close>,
  \<^verbatim>\<open>token.whitespace_\<close>, \<^verbatim>\<open>token.ent_type_\<close>, \<^verbatim>\<open>token.like_num\<close>, \<^verbatim>\<open>token.like_email\<close>,
  \<^verbatim>\<open>token.like_url\<close>. The fields \<^verbatim>\<open>i\<close> and \<^verbatim>\<open>text\<close> carry the prefix \<open>tok_\<close>, since
  \<open>text\<close> is a keyword of the theory language and \<open>i\<close> is the loop variable of the source;
  the trailing underscore of \<^verbatim>\<open>whitespace_\<close> and \<^verbatim>\<open>ent_type_\<close> is not part of a name here.
\<close>

record Token =
  tok_i :: nat
  tok_text :: string
  whitespace :: string
  ent_type :: string
  like_num :: bool
  like_email :: bool
  like_url :: bool

text \<open>\<^verbatim>\<open>token.text_with_ws\<close>: the text followed by the trailing whitespace.\<close>

definition text_with_ws :: "Token \<Rightarrow> string" where
  "text_with_ws t = tok_text t @ whitespace t"

text \<open>
  A Python dictionary keyed by tokens: an association list in insertion order.
  \<^verbatim>\<open>d[k] = v\<close> is \<^const>\<open>AList.update\<close> (replace in place, or append a new key at the end),
  \<^verbatim>\<open>k in d\<close> is \<open>map_of d k \<noteq> None\<close>, and \<^verbatim>\<open>d[k]\<close> raises \<^const>\<open>KeyError\<close> when
  \<open>map_of d k = None\<close>. The keys of a dictionary are distinct.
\<close>

type_synonym 'v tokdict = "(Token \<times> 'v) list"

text \<open>
  The spaCy document with the extension attributes registered in \<^verbatim>\<open>__init__\<close>:
  \<^verbatim>\<open>performed_spellCheck\<close> (default \<^verbatim>\<open>False\<close>), \<^verbatim>\<open>outcome_spellCheck\<close> (default \<^verbatim>\<open>""\<close>) and
  \<^verbatim>\<open>score_spellCheck\<close> (default \<^verbatim>\<open>None\<close>). The type \<open>'p\<close> is the type of the rounded
  probabilities, which the code only stores.
\<close>

record 'p Doc =
  tokens :: "Token list"
  performed_spellCheck :: bool
  outcome_spellCheck :: string
  score_spellCheck :: "(string \<times> 'p) list tokdict option"

text \<open>The document as the annotation pipeline hands it over: all extensions at their default.\<close>

definition new_doc :: "Token list \<Rightarrow> 'p Doc" where
  "new_doc ts = \<lparr>tokens = ts, performed_spellCheck = False, outcome_spellCheck = [],
     score_spellCheck = None\<rparr>"

text \<open>
  spaCy numbers the tokens of a document by position: \<^verbatim>\<open>doc[k].i == k\<close>.
\<close>

definition doc_wf :: "'p Doc \<Rightarrow> bool" where
  "doc_wf doc = (map tok_i (tokens doc) = [0 ..< length (tokens doc)])"

text \<open>
  The checker object \<^verbatim>\<open>self\<close>: the vocabulary (\<^verbatim>\<open>self.vocab\<close>, the words of the vocabulary
  file) and the mask string (\<^verbatim>\<open>self.mask\<close>, set to the \<^verbatim>\<open>mask_token\<close> of the tokenizer and named
  after it here, since \<open>mask\<close> is a constant of HOL). The field \<^verbatim>\<open>self.debug\<close> only switches
  printing and timing on, and is left out together with the printing.
\<close>

record ContextualSpellCheck =
  vocab :: "string set"
  mask_token :: string

section \<open>Library functions\<close>

text \<open>
  \<^verbatim>\<open>str.lower()\<close> is a method of Python's strings and folds the capital letters of all
  of Unicode. It is a parameter \<open>lower\<close> of the functions that use it, so that every
  property holds for the lower-casing Python performs, whatever it does to a text.
\<close>

text \<open>
  Modelled from the spec: \<^verbatim>\<open>editdistance.eval\<close> belongs to the imported package
  \<^verbatim>\<open>editdistance\<close>, whose code is not part of the repository. The glossary of the
  specification gives it as the Levenshtein distance: the minimum number of
  single-character insertions, deletions and substitutions that turn one string into the
  other.
\<close>

fun editdistance_eval :: "string \<Rightarrow> string \<Rightarrow> nat" where
  "editdistance_eval [] ys = length ys"
| "editdistance_eval (x # xs) [] = Suc (length xs)"
| "editdistance_eval (x # xs) (y # ys) =
     min (min (Suc (editdistance_eval xs (y # ys))) (Suc (editdistance_eval (x # xs) ys)))
         (editdistance_eval xs ys + (if x = y then 0 else 1))"

section \<open>misspellIdentify\<close>

text \<open>The condition of the \<^verbatim>\<open>if\<close> in the loop of \<^verbatim>\<open>misspellIdentify\<close>.\<close>

definition is_misspell :: "(string \<Rightarrow> string) \<Rightarrow> ContextualSpellCheck \<Rightarrow> Token \<Rightarrow> bool" where
  "is_misspell lower self token =
     (lower (tok_text token) \<notin> vocab self
      \<and> ent_type token \<noteq> ''PERSON''
      \<and> \<not> like_num token
      \<and> \<not> like_email token
      \<and> \<not> like_url token)"

text \<open>
  The loop \<^verbatim>\<open>for token in doc\<close>, with the list \<^verbatim>\<open>misspell\<close> as accumulator
  (\<^verbatim>\<open>misspell.append(token)\<close>).
\<close>

fun misspell_loop ::
  "(string \<Rightarrow> string) \<Rightarrow> ContextualSpellCheck \<Rightarrow> Token list \<Rightarrow> Token list \<Rightarrow> Token list" where
  "misspell_loop lower self [] misspell = misspell"
| "misspell_loop lower self (token # rest) misspell =
     (if is_misspell lower self token
      then misspell_loop lower self rest (misspell @ [token])
      else misspell_loop lower self rest misspell)"

definition misspellIdentify ::
  "(string \<Rightarrow> string) \<Rightarrow> ContextualSpellCheck \<Rightarrow> 'p Doc \<Rightarrow> Token list \<times> 'p Doc" where
  "misspellIdentify lower self doc = (misspell_loop lower self (tokens doc) [], doc)"

section \<open>candidateGenerator\<close>

text \<open>
  The inner loop \<^verbatim>\<open>for i in doc\<close> that builds \<^verbatim>\<open>updatedQuery\<close> for one misspelled token.
\<close>

fun masked_query :: "string \<Rightarrow> Token \<Rightarrow> Token list \<Rightarrow> string \<Rightarrow> string" where
  "masked_query m token [] updatedQuery = updatedQuery"
| "masked_query m token (t # rest) updatedQuery =
     (if tok_i t = tok_i token
      then masked_query m token rest (updatedQuery @ m @ whitespace t)
      else masked_query m token rest (updatedQuery @ text_with_ws t))"

text \<open>
  The inference collaborator is a parameter \<open>predict\<close>: \<open>predict updatedQuery top_n\<close> stands
  for the tokenizer, the model, the softmax, \<^verbatim>\<open>torch.topk\<close> and the decoding of lines
  197 to 206, and returns the list
  \<^verbatim>\<open>[(decode([top_n_tokens[i]]), round(top_n_score[i], 5)) for i in range(top_n)]\<close>.
  The list \<^verbatim>\<open>response[token]\<close> of line 212 holds the first components of the same entries.
  The model covers the runs in which the collaborator answers; an exception raised inside
  it ends the run.

  The state of the outer loop \<^verbatim>\<open>for token in misspellings\<close> is \<^verbatim>\<open>response\<close>, \<^verbatim>\<open>score\<close> and
  the list of the texts submitted to the collaborator so far.
\<close>

fun generator_loop ::
  "ContextualSpellCheck \<Rightarrow> (string \<Rightarrow> nat \<Rightarrow> (string \<times> 'p) list) \<Rightarrow> 'p Doc \<Rightarrow> nat \<Rightarrow> Token list
   \<Rightarrow> string list tokdict \<times> (string \<times> 'p) list tokdict \<times> string list
   \<Rightarrow> string list tokdict \<times> (string \<times> 'p) list tokdict \<times> string list" where
  "generator_loop self predict doc top_n [] st = st"
| "generator_loop self predict doc top_n (token # rest) (response, score, calls) =
     (let updatedQuery = masked_query (mask_token self) token (tokens doc) [];
          top = predict updatedQuery top_n
      in if map_of response token = None
         then generator_loop self predict doc top_n rest
                (AList.update token (map fst top) response,
                 AList.update token top score,
                 calls @ [updatedQuery])
         else generator_loop self predict doc top_n rest
                (response, score, calls @ [updatedQuery]))"

text \<open>
  \<^verbatim>\<open>candidateGenerator\<close> returns \<^verbatim>\<open>response\<close>; the document it has annotated and the texts
  it has submitted to the collaborator are returned with it.
\<close>

definition candidateGenerator ::
  "ContextualSpellCheck \<Rightarrow> (string \<Rightarrow> nat \<Rightarrow> (string \<times> 'p) list) \<Rightarrow> 'p Doc \<Rightarrow> Token list \<Rightarrow> nat
   \<Rightarrow> string list tokdict \<times> 'p Doc \<times> string list" where
  "candidateGenerator self predict doc misspellings top_n =
     (case generator_loop self predict doc top_n misspellings ([], [], []) of
        (response, score, calls) \<Rightarrow>
          (response,
           (if length misspellings \<noteq> 0
            then doc\<lparr>performed_spellCheck := True, score_spellCheck := Some score\<rparr>
            else doc),
           calls))"

section \<open>candidateRanking\<close>

text \<open>
  The inner loop \<^verbatim>\<open>for candidate in misspellingsDict[misspell]\<close>; its state is
  \<^verbatim>\<open>least_edit_dist\<close> and \<^verbatim>\<open>response\<close>.
\<close>

fun rank_candidates ::
  "Token \<Rightarrow> string list \<Rightarrow> nat \<times> string tokdict \<Rightarrow> nat \<times> string tokdict" where
  "rank_candidates misspell [] st = st"
| "rank_candidates misspell (candidate # rest) (least_edit_dist, response) =
     (let edit_dist = editdistance_eval (tok_text misspell) candidate
      in if edit_dist < least_edit_dist
         then rank_candidates misspell rest (edit_dist, AList.update misspell candidate response)
         else rank_candidates misspell rest (least_edit_dist, response))"

text \<open>
  The outer loop \<^verbatim>\<open>for misspell in misspellingsDict\<close>: the entries are visited in
  insertion order, \<^verbatim>\<open>misspellingsDict[misspell]\<close> is the value of the entry, and
  \<^verbatim>\<open>least_edit_dist\<close> starts at 100 for every key.
\<close>

fun rank_loop :: "string list tokdict \<Rightarrow> string tokdict \<Rightarrow> string tokdict" where
  "rank_loop [] response = response"
| "rank_loop ((misspell, candidates) # rest) response =
     rank_loop rest (snd (rank_candidates misspell candidates (100, response)))"

definition candidateRanking :: "string list tokdict \<Rightarrow> string tokdict" where
  "candidateRanking misspellingsDict = rank_loop misspellingsDict []"

section \<open>The pipeline entry points\<close>

text \<open>
  The assembly loop \<^verbatim>\<open>for i in doc\<close> of \<^verbatim>\<open>__call__\<close>: the test is
  \<^verbatim>\<open>i.i in [misspell.i for misspell in misspellTokens]\<close>, and \<^verbatim>\<open>answer[i]\<close> raises
  \<^const>\<open>KeyError\<close> when the token is not a key of \<^verbatim>\<open>answer\<close>.
\<close>

fun assemble_loop ::
  "Token list \<Rightarrow> string tokdict \<Rightarrow> Token list \<Rightarrow> string \<Rightarrow> error + string" where
  "assemble_loop misspellTokens answer [] updatedQuery = Inr updatedQuery"
| "assemble_loop misspellTokens answer (t # rest) updatedQuery =
     (if tok_i t \<in> set (map tok_i misspellTokens)
      then (case map_of answer t of
              None \<Rightarrow> Inl KeyError
            | Some replacement \<Rightarrow>
                assemble_loop misspellTokens answer rest (updatedQuery @ replacement @ whitespace t))
      else assemble_loop misspellTokens answer rest (updatedQuery @ text_with_ws t))"

text \<open>
  \<^verbatim>\<open>__call__\<close>: the result is the annotated document, or the exception that ended the run;
  the texts submitted to the collaborator are returned with the document.
\<close>

definition call ::
  "(string \<Rightarrow> string) \<Rightarrow> ContextualSpellCheck \<Rightarrow> (string \<Rightarrow> nat \<Rightarrow> (string \<times> 'p) list) \<Rightarrow> 'p Doc
   \<Rightarrow> error + ('p Doc \<times> string list)" where
  "call lower self predict doc0 =
     (case misspellIdentify lower self doc0 of
        (misspellTokens, doc) \<Rightarrow>
          if length misspellTokens > 0
          then (case candidateGenerator self predict doc misspellTokens 10 of
                  (candidate, doc1, calls) \<Rightarrow>
                    (case assemble_loop misspellTokens (candidateRanking candidate)
                            (tokens doc1) [] of
                       Inl e \<Rightarrow> Inl e
                     | Inr updatedQuery \<Rightarrow>
                         Inr (doc1\<lparr>outcome_spellCheck := updatedQuery\<rparr>, calls)))
          else Inr (doc, []))"

text \<open>
  The argument of \<^verbatim>\<open>check\<close> is any Python object; the ones that matter for the guard of
  line 102 are strings, \<^verbatim>\<open>None\<close> and lists. \<^verbatim>\<open>len\<close> raises \<^verbatim>\<open>TypeError\<close> on \<^verbatim>\<open>None\<close>.
\<close>

datatype pyobj = PyStr string | PyNone | PyList "pyobj list"

fun is_str :: "pyobj \<Rightarrow> bool" where
  "is_str (PyStr s) = True"
| "is_str PyNone = False"
| "is_str (PyList xs) = False"

fun py_len :: "pyobj \<Rightarrow> error + nat" where
  "py_len (PyStr s) = Inr (length s)"
| "py_len PyNone = Inl TypeError"
| "py_len (PyList xs) = Inr (length xs)"

text \<open>
  The two shapes of the pair \<^verbatim>\<open>check\<close> returns: the message with the query, or the
  updated query with the document.
\<close>

datatype 'p check_result =
    InvalidQuery string pyobj
  | Checked string "'p Doc"

text \<open>
  The assembly loop of \<^verbatim>\<open>check\<close>, whose test is \<^verbatim>\<open>i in misspellTokens\<close>.
\<close>

fun check_assemble_loop ::
  "Token list \<Rightarrow> string tokdict \<Rightarrow> Token list \<Rightarrow> string \<Rightarrow> error + string" where
  "check_assemble_loop misspellTokens answer [] updatedQuery = Inr updatedQuery"
| "check_assemble_loop misspellTokens answer (t # rest) updatedQuery =
     (if t \<in> set misspellTokens
      then (case map_of answer t of
              None \<Rightarrow> Inl KeyError
            | Some replacement \<Rightarrow>
                check_assemble_loop misspellTokens answer rest
                  (updatedQuery @ replacement @ whitespace t))
      else check_assemble_loop misspellTokens answer rest (updatedQuery @ text_with_ws t))"

text \<open>
  \<^verbatim>\<open>check\<close>. The annotation pipeline \<^verbatim>\<open>nlp = spacy.load(...)\<close> is the parameter \<open>nlp\<close>; it
  tokenizes strings, and raises \<^verbatim>\<open>TypeError\<close> on any other object. In
  \<^verbatim>\<open>type(query) != str and len(query) == 0\<close> the call of \<^verbatim>\<open>len\<close> is evaluated only when the
  first operand is true.
\<close>

definition check ::
  "(string \<Rightarrow> string) \<Rightarrow> ContextualSpellCheck \<Rightarrow> (string \<Rightarrow> 'p Doc) \<Rightarrow> (string \<Rightarrow> nat \<Rightarrow> (string \<times> 'p) list) \<Rightarrow> pyobj
   \<Rightarrow> error + ('p check_result \<times> string list)" where
  "check lower self nlp predict query =
     (case (if \<not> is_str query then map_sum id (\<lambda>n. n = 0) (py_len query) else Inr False) of
        Inl e \<Rightarrow> Inl e
      | Inr True \<Rightarrow>
          Inr (InvalidQuery ''Invalid query, expected non empty `str` but passed'' query, [])
      | Inr False \<Rightarrow>
          (case query of
             PyStr s \<Rightarrow>
               (case misspellIdentify lower self (nlp s) of
                  (misspellTokens, doc) \<Rightarrow>
                    if length misspellTokens > 0
                    then (case candidateGenerator self predict doc misspellTokens 10 of
                            (candidate, doc1, calls) \<Rightarrow>
                              (case check_assemble_loop misspellTokens
                                      (candidateRanking candidate) (tokens doc1) [] of
                                 Inl e \<Rightarrow> Inl e
                               | Inr updatedQuery \<Rightarrow>
                                   Inr (Checked updatedQuery
                                          (doc1\<lparr>outcome_spellCheck := updatedQuery\<rparr>), calls)))
                    else Inr (Checked [] doc, []))
           | PyNone \<Rightarrow> Inl TypeError
           | PyList xs \<Rightarrow> Inl TypeError))"

section \<open>doc_suggestions_spellCheck\<close>

text \<open>
  The inner loop \<^verbatim>\<open>for suggestion_score in doc._.score_spellCheck[token]\<close>;
  \<^verbatim>\<open>response[token].append(x)\<close> extends the list stored under the key.
\<close>

fun suggestions_inner ::
  "Token \<Rightarrow> (string \<times> 'p) list \<Rightarrow> string list tokdict \<Rightarrow> string list tokdict" where
  "suggestions_inner token [] response = response"
| "suggestions_inner token (suggestion_score # rest) response =
     suggestions_inner token rest
       (AList.map_entry token (\<lambda>l. l @ [fst suggestion_score]) response)"

text \<open>The outer loop \<^verbatim>\<open>for token in doc._.score_spellCheck\<close>.\<close>

fun suggestions_loop ::
  "(string \<times> 'p) list tokdict \<Rightarrow> string list tokdict \<Rightarrow> string list tokdict" where
  "suggestions_loop [] response = response"
| "suggestions_loop ((token, scores) # rest) response =
     suggestions_loop rest
       (suggestions_inner token scores
          (if map_of response token = None then AList.update token [] response else response))"

definition doc_suggestions_spellCheck :: "'p Doc \<Rightarrow> string list tokdict" where
  "doc_suggestions_spellCheck doc =
     (case score_spellCheck doc of
        None \<Rightarrow> []
      | Some score \<Rightarrow> suggestions_loop score [])"

section \<open>Occurrences of the mask in a text\<close>

text \<open>
  The number of positions of a text at which the string \<open>m\<close> starts; it states how often
  the mask occurs in a text submitted to the collaborator.
\<close>

fun occurrences :: "string \<Rightarrow> string \<Rightarrow> nat" where
  "occurrences m [] = (if m = [] then 1 else 0)"
| "occurrences m (c # s) = (if prefix m (c # s) then 1 else 0) + occurrences m s"

text \<open>
  A border of a string is a proper, non-empty prefix that is also a suffix of it. A string
  without a border cannot overlap a copy of itself; the mask \<^verbatim>\<open>[MASK]\<close> is one.
\<close>

definition border_free :: "string \<Rightarrow> bool" where
  "border_free m = (\<forall>k\<in>{1 ..< length m}. take k m \<noteq> drop (length m - k) m)"

section \<open>Example inputs\<close>

text \<open>
  A token \<^verbatim>\<open>teh\<close> with three candidates: \<^verbatim>\<open>the\<close> at edit distance 2, then \<^verbatim>\<open>ten\<close> and
  \<^verbatim>\<open>tea\<close>, both at edit distance 1.
\<close>

definition ex_tok :: Token where
  "ex_tok = \<lparr>tok_i = 0, tok_text = ''teh'', whitespace = '' '', ent_type = [],
     like_num = False, like_email = False, like_url = False\<rparr>"

definition ex_dict :: "string list tokdict" where
  "ex_dict = [(ex_tok, [''the'', ''ten'', ''tea''])]"

text \<open>A document that carries scores for \<^const>\<open>ex_tok\<close>.\<close>

definition ex_scored_doc :: "real Doc" where
  "ex_scored_doc = \<lparr>tokens = [ex_tok], performed_spellCheck = True,
     outcome_spellCheck = ''ten '',
     score_spellCheck = Some [(ex_tok, [(''the'', 0.5), (''ten'', 0.3), (''tea'', 0.1)])]\<rparr>"

text \<open>An ordinary word token: no entity label, no flag set.\<close>

definition mk_token :: "nat \<Rightarrow> string \<Rightarrow> string \<Rightarrow> Token" where
  "mk_token k txt ws = \<lparr>tok_i = k, tok_text = txt, whitespace = ws, ent_type = [],
     like_num = False, like_email = False, like_url = False\<rparr>"

text \<open>
  The lower-casing of the examples. All their texts are ASCII, and on an ASCII text
  \<^verbatim>\<open>str.lower()\<close> folds the letters A to Z and keeps every other character.
\<close>

definition ex_lower_char :: "char \<Rightarrow> char" where
  "ex_lower_char c =
     (case map_of (zip ''ABCDEFGHIJKLMNOPQRSTUVWXYZ'' ''abcdefghijklmnopqrstuvwxyz'') c of
        None \<Rightarrow> c
      | Some l \<Rightarrow> l)"

definition ex_lower :: "string \<Rightarrow> string" where
  "ex_lower s = map ex_lower_char s"

text \<open>A checker with a small vocabulary and the mask of the BERT tokenizer.\<close>

definition ex_self :: ContextualSpellCheck where
  "ex_self = \<lparr>vocab = {''income'', ''was'', ''million'', ''['', ''mask'', '']''},
     mask_token = ''[MASK]''\<rparr>"

text \<open>A collaborator that answers every text with the same two candidates.\<close>

definition ex_predict :: "string \<Rightarrow> nat \<Rightarrow> (string \<times> real) list" where
  "ex_predict updatedQuery top_n = [(''million'', 0.9), (''millions'', 0.05)]"

text \<open>
  The texts \<^verbatim>\<open>Income was million\<close> (every word known) and \<^verbatim>\<open>Income was milion\<close> (the last
  word unknown).
\<close>

definition ex_clean_doc :: "real Doc" where
  "ex_clean_doc =
     new_doc [mk_token 0 ''Income'' '' '', mk_token 1 ''was'' '' '', mk_token 2 ''million'' []]"

definition ex_misspell :: Token where
  "ex_misspell = mk_token 2 ''milion'' []"

definition ex_doc :: "real Doc" where
  "ex_doc = new_doc [mk_token 0 ''Income'' '' '', mk_token 1 ''was'' '' '', ex_misspell]"

text \<open>The text \<^verbatim>\<open>[MASK] milion\<close>, whose first three tokens spell the mask.\<close>

definition ex_mask_doc :: "real Doc" where
  "ex_mask_doc =
     new_doc [mk_token 0 ''['' [], mk_token 1 ''MASK'' [], mk_token 2 '']'' '' '',
       mk_token 3 ''milion'' []]"

text \<open>A text that is one unknown word of 120 letters.\<close>

definition ex_long_tok :: Token where
  "ex_long_tok = mk_token 0 (replicate 120 (CHR ''a'')) []"

definition ex_long_doc :: "real Doc" where
  "ex_long_doc = new_doc [ex_long_tok]"

definition ex_long_dict :: "string list tokdict" where
  "ex_long_dict = [(ex_long_tok, [''million'', ''millions''])]"

text \<open>A tokenizer that returns no token for the empty text, and one token otherwise.\<close>

definition ex_nlp :: "string \<Rightarrow> real Doc" where
  "ex_nlp s = new_doc (if s = [] then [] else [mk_token 0 s []])"

section \<open>Properties of misspellIdentify\<close>

text \<open>The loop appends the tokens that satisfy the condition, in the order of the document.\<close>

lemma misspell_loop_filter:
  "misspell_loop lower self ts misspell = misspell @ filter (is_misspell lower self) ts"
  by (induction ts arbitrary: misspell) auto

text \<open>
  Claim C2. The tokens \<^const>\<open>misspellIdentify\<close> returns are the tokens of the document, in
  document order, whose lower-cased text is not in the vocabulary, whose entity label is
  not \<^verbatim>\<open>PERSON\<close> and which are not like a number, an email address or a URL: a token of the
  document is returned exactly when all of these hold. The result is a subsequence of the
  tokens of the document, and the document is returned as it was received.
\<close>

theorem misspellIdentify_filter:
  "fst (misspellIdentify lower self doc) =
     filter (\<lambda>token. lower (tok_text token) \<notin> vocab self
                    \<and> ent_type token \<noteq> ''PERSON''
                    \<and> \<not> like_num token \<and> \<not> like_email token \<and> \<not> like_url token)
            (tokens doc)
   \<and> subseq (fst (misspellIdentify lower self doc)) (tokens doc)
   \<and> snd (misspellIdentify lower self doc) = doc"
proof -
  have "is_misspell lower self = (\<lambda>token. lower (tok_text token) \<notin> vocab self
                    \<and> ent_type token \<noteq> ''PERSON''
                    \<and> \<not> like_num token \<and> \<not> like_email token \<and> \<not> like_url token)"
    by (simp add: fun_eq_iff is_misspell_def)
  then have "fst (misspellIdentify lower self doc) =
     filter (\<lambda>token. lower (tok_text token) \<notin> vocab self
                    \<and> ent_type token \<noteq> ''PERSON''
                    \<and> \<not> like_num token \<and> \<not> like_email token \<and> \<not> like_url token)
            (tokens doc)"
    by (simp add: misspellIdentify_def misspell_loop_filter)
  moreover have "subseq (fst (misspellIdentify lower self doc)) (tokens doc)"
    by (simp add: misspellIdentify_def misspell_loop_filter)
  moreover have "snd (misspellIdentify lower self doc) = doc"
    by (simp add: misspellIdentify_def)
  ultimately show ?thesis by blast
qed

theorem misspellIdentify_filter_witness:
  "fst (misspellIdentify ex_lower ex_self ex_doc) = [ex_misspell]
   \<and> subseq [ex_misspell] (tokens ex_doc)
   \<and> snd (misspellIdentify ex_lower ex_self ex_doc) = ex_doc"
  using misspellIdentify_filter[of ex_lower ex_self ex_doc]
  by (simp add: ex_self_def ex_doc_def ex_misspell_def new_doc_def mk_token_def
      ex_lower_def ex_lower_char_def)

section \<open>The edit distance\<close>

text \<open>
  The distance of a string to itself is 0, and the distance is at least the difference of
  the lengths.
\<close>

lemma editdistance_refl: "editdistance_eval xs xs = 0"
  by (induction xs) auto

lemma editdistance_lower: "length xs - length ys \<le> editdistance_eval xs ys"
  by (induction xs ys rule: editdistance_eval.induct) auto

text \<open>
  The distances of the example of the specification: \<^verbatim>\<open>milion\<close> is one insertion away
  from \<^verbatim>\<open>million\<close> and two from \<^verbatim>\<open>millions\<close>.
\<close>

lemma editdistance_milion_million: "editdistance_eval ''milion'' ''million'' = 1"
  by code_simp

lemma editdistance_milion_millions: "editdistance_eval ''milion'' ''millions'' = 2"
  by code_simp

section \<open>Properties of candidateRanking\<close>

subsection \<open>The inner loop\<close>

text \<open>The inner loop for one token leaves the entries of all other tokens alone.\<close>

lemma rank_candidates_other:
  "k \<noteq> m \<Longrightarrow> map_of (snd (rank_candidates m cs (least, r))) k = map_of r k"
  by (induction cs arbitrary: least r) (auto simp: Let_def update_conv')

text \<open>When no candidate is closer than the current least distance, nothing changes.\<close>

lemma rank_candidates_unchanged:
  "\<forall>c\<in>set cs. least \<le> editdistance_eval (tok_text m) c \<Longrightarrow>
   rank_candidates m cs (least, r) = (least, r)"
  by (induction cs arbitrary: least r) (auto simp: Let_def)

text \<open>
  Otherwise the entry of the token becomes the first candidate of least distance, and the
  tracked distance is the distance of that candidate.
\<close>

lemma rank_candidates_pick:
  assumes "\<exists>c\<in>set cs. editdistance_eval (tok_text m) c < least"
  shows "\<exists>k<length cs.
           map_of (snd (rank_candidates m cs (least, r))) m = Some (cs ! k)
         \<and> fst (rank_candidates m cs (least, r)) = editdistance_eval (tok_text m) (cs ! k)
         \<and> editdistance_eval (tok_text m) (cs ! k) < least
         \<and> (\<forall>c\<in>set cs. editdistance_eval (tok_text m) (cs ! k) \<le> editdistance_eval (tok_text m) c)
         \<and> (\<forall>j<k. editdistance_eval (tok_text m) (cs ! k) < editdistance_eval (tok_text m) (cs ! j))"
  using assms
proof (induction cs arbitrary: least r)
  case Nil
  then show ?case by simp
next
  case (Cons c cs)
  let ?f = "\<lambda>c. editdistance_eval (tok_text m) c"
  show ?case
  proof (cases "?f c < least")
    case True
    note lt = True
    show ?thesis
    proof (cases "\<exists>c'\<in>set cs. ?f c' < ?f c")
      case True
      from Cons.IH[OF True, of "AList.update m c r"]
      obtain k where k: "k < length cs"
        "map_of (snd (rank_candidates m cs (?f c, AList.update m c r))) m = Some (cs ! k)"
        "fst (rank_candidates m cs (?f c, AList.update m c r)) = ?f (cs ! k)"
        "?f (cs ! k) < ?f c"
        "\<forall>c'\<in>set cs. ?f (cs ! k) \<le> ?f c'"
        "\<forall>j<k. ?f (cs ! k) < ?f (cs ! j)"
        by blast
      have "\<forall>j<Suc k. ?f ((c # cs) ! Suc k) < ?f ((c # cs) ! j)"
        using k(4,6) by (auto simp: less_Suc_eq_0_disj)
      with k lt show ?thesis
        by (intro exI[of _ "Suc k"]) (auto simp: Let_def)
    next
      case False
      then have "\<forall>c'\<in>set cs. ?f c \<le> ?f c'" by (auto simp: not_less)
      from rank_candidates_unchanged[OF this, of "AList.update m c r"] lt False
      show ?thesis
        by (intro exI[of _ 0]) (auto simp: Let_def update_conv' not_less)
    qed
  next
    case False
    with Cons.prems have ex: "\<exists>c'\<in>set cs. ?f c' < least" by auto
    from Cons.IH[OF ex, of r]
    obtain k where k: "k < length cs"
        "map_of (snd (rank_candidates m cs (least, r))) m = Some (cs ! k)"
        "fst (rank_candidates m cs (least, r)) = ?f (cs ! k)"
        "?f (cs ! k) < least"
        "\<forall>c'\<in>set cs. ?f (cs ! k) \<le> ?f c'"
        "\<forall>j<k. ?f (cs ! k) < ?f (cs ! j)"
      by blast
    have "\<forall>j<Suc k. ?f ((c # cs) ! Suc k) < ?f ((c # cs) ! j)"
      using k(4,6) False by (auto simp: less_Suc_eq_0_disj)
    moreover have "?f (cs ! k) \<le> ?f c" using k(4) False by simp
    ultimately show ?thesis using k False
      by (intro exI[of _ "Suc k"]) (auto simp: Let_def)
  qed
qed

text \<open>The entry computed for the token depends on the old dictionary through that entry only.\<close>

lemma rank_candidates_cong:
  "map_of r m = map_of r' m \<Longrightarrow>
   map_of (snd (rank_candidates m cs (least, r))) m = map_of (snd (rank_candidates m cs (least, r'))) m"
proof (induction cs arbitrary: least r r')
  case Nil
  then show ?case by simp
next
  case (Cons c cs)
  show ?case
  proof (cases "editdistance_eval (tok_text m) c < least")
    case True
    have "map_of (AList.update m c r) m = map_of (AList.update m c r') m"
      by (simp add: update_conv')
    from Cons.IH[OF this] True show ?thesis by (simp add: Let_def)
  next
    case False
    from Cons.IH[OF Cons.prems] False show ?thesis by (simp add: Let_def)
  qed
qed

text \<open>Every entry the loop writes is closer to the token than the distance it started with.\<close>

lemma rank_candidates_bound:
  "map_of (snd (rank_candidates m cs (least, r))) k = Some b \<Longrightarrow>
   map_of r k = Some b \<or> (k = m \<and> editdistance_eval (tok_text m) b < least)"
proof (induction cs arbitrary: least r)
  case Nil
  then show ?case by simp
next
  case (Cons c cs)
  show ?case
  proof (cases "editdistance_eval (tok_text m) c < least")
    case True
    with Cons.prems have
      "map_of (snd (rank_candidates m cs (editdistance_eval (tok_text m) c, AList.update m c r))) k = Some b"
      by (simp add: Let_def)
    from Cons.IH[OF this] True show ?thesis
      by (auto simp: update_conv' split: if_splits)
  next
    case False
    with Cons.prems have "map_of (snd (rank_candidates m cs (least, r))) k = Some b"
      by (simp add: Let_def)
    from Cons.IH[OF this] show ?thesis .
  qed
qed

subsection \<open>The outer loop\<close>

lemma rank_loop_bound:
  "map_of (rank_loop d r) k = Some b \<Longrightarrow>
   map_of r k = Some b \<or> editdistance_eval (tok_text k) b < 100"
proof (induction d arbitrary: r)
  case Nil
  then show ?case by simp
next
  case (Cons p d)
  obtain m cs where p: "p = (m, cs)" by (cases p)
  from Cons.prems have "map_of (rank_loop d (snd (rank_candidates m cs (100, r)))) k = Some b"
    by (simp add: p)
  from Cons.IH[OF this] show ?case
    using rank_candidates_bound[of m cs 100 r k b] by auto
qed

lemma rank_loop_absent:
  "map_of d m = None \<Longrightarrow> map_of (rank_loop d r) m = map_of r m"
proof (induction d arbitrary: r)
  case Nil
  then show ?case by simp
next
  case (Cons p d)
  obtain m' cs where p: "p = (m', cs)" by (cases p)
  with Cons.prems have ne: "m \<noteq> m'" and rest: "map_of d m = None"
    by (auto split: if_splits)
  show ?case
    by (simp add: p Cons.IH[OF rest] rank_candidates_other[OF ne])
qed

lemma rank_loop_present:
  "distinct (map fst d) \<Longrightarrow> map_of d m = Some cs \<Longrightarrow>
   map_of (rank_loop d r) m = map_of (snd (rank_candidates m cs (100, r))) m"
proof (induction d arbitrary: r)
  case Nil
  then show ?case by simp
next
  case (Cons p d)
  obtain m' cs' where p: "p = (m', cs')" by (cases p)
  show ?case
  proof (cases "m' = m")
    case True
    with Cons.prems p have cs: "cs' = cs" and "m \<notin> fst ` set d" by auto
    then have "map_of d m = None" by (simp add: map_of_eq_None_iff)
    from rank_loop_absent[OF this] show ?thesis by (simp add: p True cs)
  next
    case False
    with Cons.prems p have d: "distinct (map fst d)" and l: "map_of d m = Some cs" by auto
    have "map_of (snd (rank_candidates m' cs' (100, r))) m = map_of r m"
      using False by (simp add: rank_candidates_other)
    from rank_candidates_cong[OF this] show ?thesis
      by (simp add: p Cons.IH[OF d l])
  qed
qed

subsection \<open>The choice of the replacement\<close>

text \<open>
  Claim C1. For a dictionary with distinct keys, every token that has an entry in the result
  of \<^const>\<open>candidateRanking\<close> is a key of the input, and its replacement is an element \<open>k\<close>
  of its own candidate list whose edit distance to the text of the token is least over the
  whole list; every candidate before position \<open>k\<close> is strictly farther away, so among the
  candidates of least distance the earliest one of the list is returned.
\<close>

theorem candidateRanking_first_minimum:
  assumes "distinct (map fst misspellingsDict)"
      and "map_of (candidateRanking misspellingsDict) misspell = Some best"
  shows "\<exists>candidates k. map_of misspellingsDict misspell = Some candidates
           \<and> k < length candidates \<and> candidates ! k = best
           \<and> (\<forall>c\<in>set candidates. editdistance_eval (tok_text misspell) best
                  \<le> editdistance_eval (tok_text misspell) c)
           \<and> (\<forall>j<k. editdistance_eval (tok_text misspell) best
                  < editdistance_eval (tok_text misspell) (candidates ! j))"
proof -
  let ?f = "\<lambda>c. editdistance_eval (tok_text misspell) c"
  have "map_of misspellingsDict misspell \<noteq> None"
  proof
    assume "map_of misspellingsDict misspell = None"
    from rank_loop_absent[OF this, of "[]"] assms(2) show False
      by (simp add: candidateRanking_def)
  qed
  then obtain candidates where c: "map_of misspellingsDict misspell = Some candidates" by auto
  from rank_loop_present[OF assms(1) c, of "[]"] assms(2)
  have res: "map_of (snd (rank_candidates misspell candidates (100, []))) misspell = Some best"
    by (simp add: candidateRanking_def)
  have "\<exists>c\<in>set candidates. ?f c < 100"
  proof (rule ccontr)
    assume "\<not> (\<exists>c\<in>set candidates. ?f c < 100)"
    then have "\<forall>c\<in>set candidates. 100 \<le> ?f c" by (auto simp: not_less)
    from rank_candidates_unchanged[OF this, of "[]"] res show False by simp
  qed
  from rank_candidates_pick[OF this, of "[]"] res c show ?thesis by auto
qed

theorem candidateRanking_first_minimum_witness:
  "distinct (map fst ex_dict)
   \<and> map_of (candidateRanking ex_dict) ex_tok = Some ''ten''
   \<and> (\<exists>candidates k. map_of ex_dict ex_tok = Some candidates
           \<and> k < length candidates \<and> candidates ! k = ''ten''
           \<and> (\<forall>c\<in>set candidates. editdistance_eval (tok_text ex_tok) ''ten''
                  \<le> editdistance_eval (tok_text ex_tok) c)
           \<and> (\<forall>j<k. editdistance_eval (tok_text ex_tok) ''ten''
                  < editdistance_eval (tok_text ex_tok) (candidates ! j)))"
proof -
  have d: "distinct (map fst ex_dict)" by (simp add: ex_dict_def)
  have r: "map_of (candidateRanking ex_dict) ex_tok = Some ''ten''"
    by (simp add: candidateRanking_def ex_tok_def ex_dict_def)
  from candidateRanking_first_minimum[OF d r] d r show ?thesis by blast
qed

text \<open>
  Claim C10. Every replacement in the result of \<^const>\<open>candidateRanking\<close> has an edit distance
  below 100 to the text of its token: the tracked least distance starts at 100 and an entry
  is written only for a strictly smaller distance.
\<close>

theorem candidateRanking_bound:
  "map_of (candidateRanking misspellingsDict) misspell = Some best \<Longrightarrow>
   editdistance_eval (tok_text misspell) best < 100"
  using rank_loop_bound[of misspellingsDict "[]" misspell best]
  by (simp add: candidateRanking_def)

theorem candidateRanking_bound_witness:
  "map_of (candidateRanking ex_dict) ex_tok = Some ''ten''
   \<and> editdistance_eval (tok_text ex_tok) ''ten'' < 100"
  using candidateRanking_bound[of ex_dict ex_tok "''ten''"]
  by (simp add: candidateRanking_def ex_tok_def ex_dict_def)

subsection \<open>Tokens without a replacement\<close>

text \<open>
  Claim C4, at a token with a non-empty candidate list that gets no entry. The token
  \<^const>\<open>ex_long_tok\<close> has 120 letters and two candidates of 7 and 8 letters, so both are at
  an edit distance of 112 or more; no distance is below the initial value 100 of
  \<^verbatim>\<open>least_edit_dist\<close>, and the result has no entry for the token.
\<close>

theorem candidateRanking_long_token_omitted:
  "map_of ex_long_dict ex_long_tok = Some [''million'', ''millions'']
   \<and> candidateRanking ex_long_dict = []"
proof -
  have "\<forall>c\<in>set [''million'', ''millions'']. 100 \<le> editdistance_eval (tok_text ex_long_tok) c"
    using editdistance_lower[of "tok_text ex_long_tok" "''million''"]
          editdistance_lower[of "tok_text ex_long_tok" "''millions''"]
    by (simp add: ex_long_tok_def mk_token_def)
  from rank_candidates_unchanged[OF this, of "[]"] show ?thesis
    by (simp add: candidateRanking_def ex_long_dict_def)
qed

section \<open>Properties of candidateGenerator\<close>

subsection \<open>The loop over the misspelled tokens\<close>

text \<open>
  Storing the candidate strings of an entry is the same as storing the scored entry and
  dropping the scores afterwards.
\<close>

lemma update_map_snd:
  "AList.update k (g v) (map (\<lambda>(k, v). (k, g v)) al) = map (\<lambda>(k, v). (k, g v)) (AList.update k v al)"
  by (induction al) auto

lemma map_of_map_snd_None:
  "map_of (map (\<lambda>(k, v). (k, g v)) al) k = None \<longleftrightarrow> map_of al k = None"
  by (induction al) auto

text \<open>One text is submitted for every misspelled token, in the order of the tokens.\<close>

lemma generator_loop_calls:
  "snd (snd (generator_loop self predict doc top_n ms (response, score, calls))) =
     calls @ map (\<lambda>token. masked_query (mask_token self) token (tokens doc) []) ms"
  by (induction ms arbitrary: response score calls) (auto simp: Let_def)

text \<open>The dictionary \<^verbatim>\<open>response\<close> is the dictionary \<^verbatim>\<open>score\<close> without the scores.\<close>

lemma generator_loop_response:
  "response = map (\<lambda>(t, l). (t, map fst l)) score \<Longrightarrow>
   fst (generator_loop self predict doc top_n ms (response, score, calls)) =
     map (\<lambda>(t, l). (t, map fst l))
       (fst (snd (generator_loop self predict doc top_n ms (response, score, calls))))"
proof (induction ms arbitrary: response score calls)
  case Nil
  then show ?case by simp
next
  case (Cons token ms)
  let ?q = "masked_query (mask_token self) token (tokens doc) []"
  show ?case
  proof (cases "map_of response token = None")
    case True
    have "AList.update token (map fst (predict ?q top_n)) response =
          map (\<lambda>(t, l). (t, map fst l)) (AList.update token (predict ?q top_n) score)"
      unfolding Cons.prems by (rule update_map_snd)
    from Cons.IH[OF this] True show ?thesis by (simp add: Let_def)
  next
    case False
    from Cons.IH[OF Cons.prems] False show ?thesis by (simp add: Let_def del: not_None_eq)
  qed
qed

text \<open>
  An entry that exists is kept; every other token of the list gets the answer of the
  collaborator to its own masked text.
\<close>

lemma generator_loop_score:
  "response = map (\<lambda>(t, l). (t, map fst l)) score \<Longrightarrow>
   map_of (fst (snd (generator_loop self predict doc top_n ms (response, score, calls)))) t =
     (case map_of score t of
        Some v \<Rightarrow> Some v
      | None \<Rightarrow> if t \<in> set ms
                then Some (predict (masked_query (mask_token self) t (tokens doc) []) top_n)
                else None)"
proof (induction ms arbitrary: response score calls)
  case Nil
  then show ?case by (simp split: option.splits)
next
  case (Cons token ms)
  let ?q = "masked_query (mask_token self) token (tokens doc) []"
  have iff: "map_of response token = None \<longleftrightarrow> map_of score token = None"
    unfolding Cons.prems by (rule map_of_map_snd_None)
  show ?case
  proof (cases "map_of response token = None")
    case True
    have "AList.update token (map fst (predict ?q top_n)) response =
          map (\<lambda>(t, l). (t, map fst l)) (AList.update token (predict ?q top_n) score)"
      unfolding Cons.prems by (rule update_map_snd)
    from Cons.IH[OF this] True iff show ?thesis
      by (auto simp: Let_def update_conv' split: option.splits)
  next
    case False
    from Cons.IH[OF Cons.prems] False iff show ?thesis
      by (auto simp: Let_def simp del: not_None_eq split: option.splits)
  qed
qed

lemma generator_loop_distinct:
  "distinct (map fst score) \<Longrightarrow>
   distinct (map fst (fst (snd (generator_loop self predict doc top_n ms (response, score, calls)))))"
  by (induction ms arbitrary: response score calls) (auto simp: Let_def distinct_update)

subsection \<open>The annotation of the document\<close>

text \<open>
  Claim C7. When \<^const>\<open>candidateGenerator\<close> is called with a non-empty list of misspelled
  tokens, the document it leaves has \<^verbatim>\<open>performed_spellCheck\<close> set to true and
  \<^verbatim>\<open>score_spellCheck\<close> set to the score dictionary: its keys are exactly the misspelled
  tokens, each with the scored candidates the collaborator returned for the masked text of
  that token, and the returned candidate dictionary is the same dictionary without the
  scores. This happens inside the generator, before any ranking. With an empty list the
  document is returned as it was received, and nothing is submitted to the collaborator.
\<close>

theorem candidateGenerator_annotation:
  assumes "candidateGenerator self predict doc misspellings top_n = (response, doc', calls)"
  shows "(misspellings \<noteq> [] \<longrightarrow>
            performed_spellCheck doc' = True
          \<and> (\<exists>score. score_spellCheck doc' = Some score
                \<and> distinct (map fst score)
                \<and> fst ` set score = set misspellings
                \<and> (\<forall>token\<in>set misspellings.
                      map_of score token =
                        Some (predict (masked_query (mask_token self) token (tokens doc) []) top_n))
                \<and> response = map (\<lambda>(t, l). (t, map fst l)) score)
          \<and> tokens doc' = tokens doc
          \<and> outcome_spellCheck doc' = outcome_spellCheck doc)
       \<and> (misspellings = [] \<longrightarrow> doc' = doc \<and> response = [] \<and> calls = [])"
proof -
  obtain r s c where loop: "generator_loop self predict doc top_n misspellings ([], [], []) = (r, s, c)"
    by (cases "generator_loop self predict doc top_n misspellings ([], [], [])") auto
  have s: "s = fst (snd (generator_loop self predict doc top_n misspellings ([], [], [])))"
   and r: "r = fst (generator_loop self predict doc top_n misspellings ([], [], []))"
    by (simp_all add: loop)
  have look: "map_of s t = (if t \<in> set misspellings
                then Some (predict (masked_query (mask_token self) t (tokens doc) []) top_n)
                else None)" for t
    unfolding s by (subst generator_loop_score) simp_all
  have dist: "distinct (map fst s)"
    unfolding s by (rule generator_loop_distinct) simp
  have resp: "r = map (\<lambda>(t, l). (t, map fst l)) s"
    unfolding s r by (rule generator_loop_response) simp
  have keys: "fst ` set s = set misspellings"
  proof -
    have "dom (map_of s) = set misspellings"
      by (auto simp: look dom_def split: if_splits)
    then show ?thesis by (simp add: dom_map_of_conv_image_fst)
  qed
  show ?thesis
  proof (cases "misspellings = []")
    case True
    with assms show ?thesis by (auto simp: candidateGenerator_def)
  next
    case False
    with assms loop have "response = r"
      and "doc' = doc\<lparr>performed_spellCheck := True, score_spellCheck := Some s\<rparr>"
      by (auto simp: candidateGenerator_def)
    with False look dist resp keys show ?thesis by simp
  qed
qed

text \<open>The run on the text \<^verbatim>\<open>Income was milion\<close>.\<close>

lemma ex_generate:
  "candidateGenerator ex_self ex_predict ex_doc [ex_misspell] 10 =
     ([(ex_misspell, [''million'', ''millions''])],
      ex_doc\<lparr>performed_spellCheck := True,
        score_spellCheck := Some [(ex_misspell, [(''million'', 0.9), (''millions'', 0.05)])]\<rparr>,
      [''Income was [MASK]''])"
  by (simp add: candidateGenerator_def ex_self_def ex_doc_def ex_misspell_def new_doc_def
      mk_token_def ex_predict_def text_with_ws_def)

theorem candidateGenerator_annotation_witness:
  "candidateGenerator ex_self ex_predict ex_doc [ex_misspell] 10 =
     ([(ex_misspell, [''million'', ''millions''])],
      ex_doc\<lparr>performed_spellCheck := True,
        score_spellCheck := Some [(ex_misspell, [(''million'', 0.9), (''millions'', 0.05)])]\<rparr>,
      [''Income was [MASK]''])
   \<and> [ex_misspell] \<noteq> []
   \<and> (\<exists>score. score_spellCheck (ex_doc\<lparr>performed_spellCheck := True,
                score_spellCheck := Some [(ex_misspell, [(''million'', 0.9), (''millions'', 0.05)])]\<rparr>)
              = Some score
            \<and> fst ` set score = set [ex_misspell]
            \<and> (\<forall>token\<in>set [ex_misspell]. map_of score token =
                  Some (ex_predict (masked_query (mask_token ex_self) token (tokens ex_doc) []) 10)))"
proof -
  note h = ex_generate
  have ne: "[ex_misspell] \<noteq> []" by simp
  from candidateGenerator_annotation[OF h] h ne show ?thesis by blast
qed

subsection \<open>The masked text\<close>

text \<open>The inner loop concatenates one piece per token.\<close>

lemma masked_query_concat:
  "masked_query m token ts acc =
     acc @ concat (map (\<lambda>t. if tok_i t = tok_i token then m @ whitespace t else text_with_ws t) ts)"
  by (induction ts arbitrary: acc) auto

text \<open>In a document numbered by position, a token sits at its own index.\<close>

lemma doc_wf_position:
  assumes "doc_wf doc" "token \<in> set (tokens doc)"
  shows "tok_i token < length (tokens doc) \<and> tokens doc ! tok_i token = token"
proof -
  from assms(2) obtain j where j: "j < length (tokens doc)" "tokens doc ! j = token"
    by (auto simp: in_set_conv_nth)
  have "map tok_i (tokens doc) ! j = [0 ..< length (tokens doc)] ! j"
    using assms(1) by (simp add: doc_wf_def)
  with j have "tok_i token = j" by simp
  with j show ?thesis by simp
qed

lemma doc_wf_index:
  assumes "doc_wf doc" "j < length (tokens doc)"
  shows "tok_i (tokens doc ! j) = j"
proof -
  have "map tok_i (tokens doc) ! j = [0 ..< length (tokens doc)] ! j"
    using assms(1) by (simp add: doc_wf_def)
  with assms(2) show ?thesis by simp
qed

text \<open>
  The masked text of a token of the document: the tokens before it, the mask with the
  whitespace of the token, the tokens after it.
\<close>

lemma masked_query_split:
  assumes wf: "doc_wf doc" and mem: "token \<in> set (tokens doc)"
  shows "masked_query m token (tokens doc) [] =
           concat (map text_with_ws (take (tok_i token) (tokens doc)))
           @ m @ whitespace token
           @ concat (map text_with_ws (drop (Suc (tok_i token)) (tokens doc)))"
proof -
  let ?ts = "tokens doc" and ?k = "tok_i token"
  let ?f = "\<lambda>t. if tok_i t = tok_i token then m @ whitespace t else text_with_ws t"
  from doc_wf_position[OF wf mem] have k: "?k < length ?ts" "?ts ! ?k = token" by simp_all
  have split: "?ts = take ?k ?ts @ token # drop (Suc ?k) ?ts"
    using k by (metis id_take_nth_drop)
  have before: "map ?f (take ?k ?ts) = map text_with_ws (take ?k ?ts)"
  proof (rule map_cong[OF refl])
    fix t assume "t \<in> set (take ?k ?ts)"
    then obtain j where "j < ?k" "t = ?ts ! j"
      using k(1) by (auto simp: in_set_conv_nth)
    then have "tok_i t = j" using doc_wf_index[OF wf, of j] k(1) by simp
    with \<open>j < ?k\<close> show "?f t = text_with_ws t" by simp
  qed
  have after: "map ?f (drop (Suc ?k) ?ts) = map text_with_ws (drop (Suc ?k) ?ts)"
  proof (rule map_cong[OF refl])
    fix t assume "t \<in> set (drop (Suc ?k) ?ts)"
    then obtain j where "j < length ?ts - Suc ?k" "t = ?ts ! (Suc ?k + j)"
      by (auto simp: in_set_conv_nth)
    then have "tok_i t = Suc ?k + j" using doc_wf_index[OF wf, of "Suc ?k + j"] by simp
    then show "?f t = text_with_ws t" by simp
  qed
  have "masked_query m token ?ts [] = concat (map ?f ?ts)"
    by (simp add: masked_query_concat)
  also have "\<dots> = concat (map ?f (take ?k ?ts @ token # drop (Suc ?k) ?ts))"
    using split by simp
  also have "\<dots> = concat (map ?f (take ?k ?ts)) @ ?f token @ concat (map ?f (drop (Suc ?k) ?ts))"
    by simp
  finally show ?thesis by (simp add: before after)
qed

text \<open>
  One text is submitted per misspelled token, in the order of the tokens: the texts and
  trailing whitespaces of the tokens before it, the mask with the trailing whitespace of
  the token, and the texts and trailing whitespaces of the tokens after it.
\<close>

lemma candidateGenerator_masked_text:
  assumes "doc_wf doc"
      and "set misspellings \<subseteq> set (tokens doc)"
      and "candidateGenerator self predict doc misspellings top_n = (response, doc', calls)"
  shows "calls = map (\<lambda>token.
                    concat (map text_with_ws (take (tok_i token) (tokens doc)))
                    @ mask_token self @ whitespace token
                    @ concat (map text_with_ws (drop (Suc (tok_i token)) (tokens doc))))
                  misspellings"
proof -
  have "calls = snd (snd (generator_loop self predict doc top_n misspellings ([], [], [])))"
    using assms(3) by (auto simp: candidateGenerator_def split: prod.splits)
  also have "\<dots> = map (\<lambda>token. masked_query (mask_token self) token (tokens doc) []) misspellings"
    by (simp add: generator_loop_calls)
  also have "\<dots> = map (\<lambda>token.
                    concat (map text_with_ws (take (tok_i token) (tokens doc)))
                    @ mask_token self @ whitespace token
                    @ concat (map text_with_ws (drop (Suc (tok_i token)) (tokens doc))))
                  misspellings"
    using assms(2) by (intro map_cong[OF refl] masked_query_split[OF assms(1)]) auto
  finally show ?thesis .
qed

subsection \<open>Occurrences of the mask in the masked text\<close>

text \<open>The mask of the BERT tokenizer has no border.\<close>

lemma border_free_MASK: "border_free ''[MASK]''"
  by code_simp

text \<open>A string that occurs in neither a text nor a part of it.\<close>

lemma occurrences_append_zero:
  "occurrences m (a @ b) = 0 \<Longrightarrow> occurrences m a = 0 \<and> occurrences m b = 0"
proof (induction a)
  case Nil
  then show ?case by (cases b) (auto split: if_splits)
next
  case (Cons c a)
  have "prefix m (c # a) \<Longrightarrow> prefix m (c # a @ b)"
    using prefix_prefix[of m "c # a" b] by simp
  with Cons show ?case by (auto split: if_splits)
qed

text \<open>
  A string without a border does not start at a position where it would overlap a copy of
  itself: neither shortly before the copy nor inside it.
\<close>

lemma no_prefix_short:
  assumes bf: "border_free m" and d: "0 < length s" "length s < length m"
  shows "\<not> (prefix m (s @ m @ post))"
proof
  assume "prefix m (s @ m @ post)"
  then obtain r where r: "s @ m @ post = m @ r" by (auto simp: prefix_def)
  let ?d = "length s" and ?n = "length m"
  have e1: "take ?n (s @ m @ post) = s @ take (?n - ?d) m" using d by simp
  have e2: "take ?n (m @ r) = m" by simp
  from r e1 e2 have "s @ take (?n - ?d) m = m" by simp
  then have "drop ?d (s @ take (?n - ?d) m) = drop ?d m" by simp
  then have eq: "take (?n - ?d) m = drop (?n - (?n - ?d)) m" using d by simp
  have "1 \<le> ?n - ?d" and "?n - ?d < ?n" using d by arith+
  then have "?n - ?d \<in> {1 ..< ?n}" by simp
  with bf eq show False unfolding border_free_def by blast
qed

lemma no_prefix_suffix:
  assumes bf: "border_free m" and d: "0 < d" "d < length m"
  shows "\<not> (prefix m (drop d m @ post))"
proof
  assume "prefix m (drop d m @ post)"
  then obtain r where r: "drop d m @ post = m @ r" by (auto simp: prefix_def)
  let ?n = "length m"
  have e1: "take (?n - d) (drop d m @ post) = drop d m" using d by simp
  have e2: "take (?n - d) (m @ r) = take (?n - d) m" by simp
  from r e1 e2 have "take (?n - d) m = drop d m" by simp
  then have eq: "take (?n - d) m = drop (?n - (?n - d)) m" using d by simp
  have "1 \<le> ?n - d" and "?n - d < ?n" using d by arith+
  then have "?n - d \<in> {1 ..< ?n}" by simp
  with bf eq show False unfolding border_free_def by blast
qed

text \<open>So the copy is the only occurrence, when the texts around it hold none.\<close>

lemma occurrences_suffix_zero:
  assumes bf: "border_free m" and z: "occurrences m post = 0"
  shows "0 < d \<Longrightarrow> occurrences m (drop d m @ post) = 0"
proof (induction "length m - d" arbitrary: d)
  case 0
  then show ?case using z by simp
next
  case (Suc n)
  then have d: "d < length m" by simp
  then obtain c where c: "drop d m = c # drop (Suc d) m"
    by (metis Cons_nth_drop_Suc)
  have np: "\<not> prefix m (drop d m @ post)"
    using no_prefix_suffix[OF bf Suc.prems d] .
  have "occurrences m (drop (Suc d) m @ post) = 0"
    using Suc.hyps(1)[of "Suc d"] Suc.hyps(2) by simp
  with np c show ?case by simp
qed

lemma occurrences_mask_post:
  assumes ne: "m \<noteq> []" and bf: "border_free m" and z: "occurrences m post = 0"
  shows "occurrences m (m @ post) = 1"
proof -
  obtain c m' where m: "m = c # m'" using ne by (cases m) auto
  have "occurrences m (drop 1 m @ post) = 0"
    using occurrences_suffix_zero[OF bf z, of 1] by simp
  then have "occurrences m (m' @ post) = 0" by (simp add: m)
  moreover have "prefix m (m @ post)" by simp
  ultimately show ?thesis by (simp add: m)
qed

lemma occurrences_pre_mask:
  assumes bf: "border_free m"
  shows "occurrences m pre = 0 \<Longrightarrow> occurrences m (pre @ m @ post) = occurrences m (m @ post)"
proof (induction pre)
  case Nil
  then show ?case by simp
next
  case (Cons c pre)
  from Cons.prems have np: "\<not> prefix m (c # pre)" and z: "occurrences m pre = 0"
    by (auto split: if_splits)
  have "\<not> prefix m ((c # pre) @ m @ post)"
  proof (cases "length (c # pre) < length m")
    case True
    then show ?thesis using no_prefix_short[OF bf, of "c # pre" post] by simp
  next
    case False
    show ?thesis
    proof
      assume "prefix m ((c # pre) @ m @ post)"
      with False have "prefix m (c # pre)"
        by (metis not_less prefix_length_prefix prefix_append prefix_order.order_refl append_prefixD prefixI)
      with np show False by simp
    qed
  qed
  with Cons.IH[OF z] show ?case by simp
qed

lemma occurrences_exactly_one:
  assumes "m \<noteq> []" "border_free m" "occurrences m (pre @ txt @ post) = 0"
  shows "occurrences m (pre @ m @ post) = 1"
proof -
  from occurrences_append_zero[OF assms(3)] have pre: "occurrences m pre = 0"
    and "occurrences m (txt @ post) = 0" by simp_all
  from occurrences_append_zero[OF this(2)] have post: "occurrences m post = 0" by simp
  show ?thesis
    using occurrences_pre_mask[OF assms(2) pre, of post]
          occurrences_mask_post[OF assms(1,2) post] by simp
qed

text \<open>
  When the text of the document does not contain the mask, every text submitted to the
  collaborator contains it exactly once.
\<close>

lemma candidateGenerator_exactly_one_mask:
  assumes wf: "doc_wf doc"
      and sub: "set misspellings \<subseteq> set (tokens doc)"
      and gen: "candidateGenerator self predict doc misspellings top_n = (response, doc', calls)"
      and ne: "mask_token self \<noteq> []"
      and bf: "border_free (mask_token self)"
      and src: "occurrences (mask_token self) (concat (map text_with_ws (tokens doc))) = 0"
  shows "\<forall>updatedQuery\<in>set calls. occurrences (mask_token self) updatedQuery = 1"
proof
  fix updatedQuery assume "updatedQuery \<in> set calls"
  with candidateGenerator_masked_text[OF wf sub gen]
  obtain token where tok: "token \<in> set misspellings"
    and q: "updatedQuery =
              concat (map text_with_ws (take (tok_i token) (tokens doc)))
              @ mask_token self @ whitespace token
              @ concat (map text_with_ws (drop (Suc (tok_i token)) (tokens doc)))"
    by auto
  let ?ts = "tokens doc" and ?k = "tok_i token"
  from tok sub have mem: "token \<in> set ?ts" by auto
  from doc_wf_position[OF wf mem] have k: "?k < length ?ts" "?ts ! ?k = token" by simp_all
  have "?ts = take ?k ?ts @ token # drop (Suc ?k) ?ts"
    using k by (metis id_take_nth_drop)
  then have "concat (map text_with_ws ?ts) =
               concat (map text_with_ws (take ?k ?ts @ token # drop (Suc ?k) ?ts))"
    by simp
  also have "\<dots> = concat (map text_with_ws (take ?k ?ts))
                  @ tok_text token
                  @ (whitespace token @ concat (map text_with_ws (drop (Suc ?k) ?ts)))"
    by (simp add: text_with_ws_def)
  finally have "occurrences (mask_token self)
                  (concat (map text_with_ws (take ?k ?ts))
                   @ tok_text token
                   @ (whitespace token @ concat (map text_with_ws (drop (Suc ?k) ?ts)))) = 0"
    using src by simp
  from occurrences_exactly_one[OF ne bf this] show "occurrences (mask_token self) updatedQuery = 1"
    by (simp add: q)
qed

text \<open>
  Claim C5, at a document whose text spells the mask. For each misspelled token the text
  submitted to the collaborator shall hold the mask exactly once, in place of that token.
  The text \<^verbatim>\<open>[MASK] milion\<close> is numbered by position and its only misspelled token is
  \<^verbatim>\<open>milion\<close>; the text submitted for it is \<^verbatim>\<open>[MASK] [MASK]\<close>, in which the mask occurs
  twice: once where the source text spells it, and once in place of the misspelled token.
\<close>

theorem candidateGenerator_two_masks:
  "doc_wf ex_mask_doc
   \<and> fst (misspellIdentify ex_lower ex_self ex_mask_doc) = [mk_token 3 ''milion'' []]
   \<and> snd (snd (candidateGenerator ex_self ex_predict ex_mask_doc
          (fst (misspellIdentify ex_lower ex_self ex_mask_doc)) 10)) = [''[MASK] [MASK]'']
   \<and> occurrences (mask_token ex_self) ''[MASK] [MASK]'' = 2"
proof -
  have wf: "doc_wf ex_mask_doc"
    by (simp add: doc_wf_def ex_mask_doc_def new_doc_def mk_token_def upt_rec)
  have mis: "fst (misspellIdentify ex_lower ex_self ex_mask_doc) = [mk_token 3 ''milion'' []]"
    by (simp add: misspellIdentify_def ex_self_def ex_mask_doc_def new_doc_def mk_token_def
        is_misspell_def ex_lower_def ex_lower_char_def)
  have calls: "snd (snd (candidateGenerator ex_self ex_predict ex_mask_doc
          [mk_token 3 ''milion'' []] 10)) = [''[MASK] [MASK]'']"
    by (simp add: candidateGenerator_def ex_self_def ex_mask_doc_def new_doc_def mk_token_def
        ex_predict_def text_with_ws_def)
  have occ: "occurrences (mask_token ex_self) ''[MASK] [MASK]'' = 2"
    by (simp add: ex_self_def)
  from wf mis calls occ show ?thesis by simp
qed

text \<open>
  On the text \<^verbatim>\<open>Income was milion\<close>, which does not contain the mask, the text submitted
  holds it once.
\<close>

lemma ex_generate_one_mask:
  "occurrences (mask_token ex_self) ''Income was [MASK]'' = 1"
proof -
  have wf: "doc_wf ex_doc"
    by (simp add: doc_wf_def ex_doc_def ex_misspell_def new_doc_def mk_token_def upt_rec)
  have sub: "set [ex_misspell] \<subseteq> set (tokens ex_doc)"
    by (simp add: ex_doc_def new_doc_def)
  have ne: "mask_token ex_self \<noteq> []" by (simp add: ex_self_def)
  have bf: "border_free (mask_token ex_self)" by (simp add: ex_self_def border_free_MASK)
  have src: "occurrences (mask_token ex_self) (concat (map text_with_ws (tokens ex_doc))) = 0"
    by (simp add: ex_self_def ex_doc_def ex_misspell_def new_doc_def mk_token_def text_with_ws_def)
  from candidateGenerator_exactly_one_mask[OF wf sub ex_generate ne bf src]
  show ?thesis by (simp del: occurrences.simps)
qed

section \<open>Properties of the entry points\<close>

subsection \<open>No misspelled token\<close>

text \<open>
  Claim C6. When \<^const>\<open>misspellIdentify\<close> returns no token, \<^const>\<open>call\<close> returns the
  document as it received it and submits no text to the collaborator: the generator, the
  ranking and the assembly are not run, so \<^verbatim>\<open>outcome_spellCheck\<close> keeps its value (the
  empty default) and \<^verbatim>\<open>performed_spellCheck\<close> stays false.
\<close>

theorem call_short_circuit:
  "fst (misspellIdentify lower self doc) = [] \<Longrightarrow> call lower self predict doc = Inr (doc, [])"
  by (simp add: call_def misspellIdentify_def)

theorem call_short_circuit_witness:
  "fst (misspellIdentify ex_lower ex_self ex_clean_doc) = []
   \<and> call ex_lower ex_self ex_predict ex_clean_doc = Inr (ex_clean_doc, [])"
proof -
  have h: "fst (misspellIdentify ex_lower ex_self ex_clean_doc) = []"
    by (simp add: misspellIdentify_def ex_self_def ex_clean_doc_def new_doc_def mk_token_def
      is_misspell_def ex_lower_def ex_lower_char_def)
  from call_short_circuit[OF h] h show ?thesis by simp
qed

subsection \<open>The assembly\<close>

text \<open>
  When every token whose index is the index of a misspelled token has an entry in
  \<^verbatim>\<open>answer\<close>, the assembly succeeds: such a token contributes its replacement and its
  trailing whitespace, every other token its text and trailing whitespace.
\<close>

lemma assemble_loop_answered:
  "\<forall>t\<in>set ts. tok_i t \<in> set (map tok_i misspellTokens) \<longrightarrow> map_of answer t \<noteq> None \<Longrightarrow>
   assemble_loop misspellTokens answer ts updatedQuery =
     Inr (updatedQuery @ concat (map (\<lambda>t.
            if tok_i t \<in> set (map tok_i misspellTokens)
            then the (map_of answer t) @ whitespace t else text_with_ws t) ts))"
  by (induction ts arbitrary: updatedQuery) (auto simp del: not_None_eq)

text \<open>
  The run on the text \<^verbatim>\<open>Income was milion\<close>: the misspelled token is replaced by
  \<^verbatim>\<open>million\<close>, the nearer of the two candidates, and the other tokens and the whitespace
  are kept.
\<close>

lemma call_example:
  "call ex_lower ex_self ex_predict ex_doc =
     Inr (ex_doc\<lparr>performed_spellCheck := True,
            score_spellCheck := Some [(ex_misspell, [(''million'', 0.9), (''millions'', 0.05)])],
            outcome_spellCheck := ''Income was million''\<rparr>,
          [''Income was [MASK]''])"
proof -
  have mis: "misspellIdentify ex_lower ex_self ex_doc = ([ex_misspell], ex_doc)"
    by (simp add: misspellIdentify_def ex_self_def ex_doc_def ex_misspell_def new_doc_def
        mk_token_def is_misspell_def ex_lower_def ex_lower_char_def)
  have rank: "candidateRanking [(ex_misspell, [''million'', ''millions''])] =
                [(ex_misspell, ''million'')]"
    by (simp add: candidateRanking_def ex_misspell_def mk_token_def
        editdistance_milion_million editdistance_milion_millions
        del: editdistance_eval.simps)
  show ?thesis
    by (simp add: call_def mis ex_generate rank)
       (simp add: ex_doc_def ex_misspell_def new_doc_def mk_token_def text_with_ws_def)
qed

text \<open>
  Claim C3, at a misspelled token without an entry in the ranking result. The only token of
  \<^const>\<open>ex_long_doc\<close> is misspelled and the ranking omits it, since both candidates are at
  an edit distance of 100 or more; the assembly then reads \<^verbatim>\<open>answer[i]\<close> for it, and the
  run ends with \<^const>\<open>KeyError\<close> instead of passing the token through.
\<close>

theorem call_unanswered_token_KeyError:
  "call ex_lower ex_self ex_predict ex_long_doc = Inl KeyError"
proof -
  have len: "length (ex_lower (tok_text ex_long_tok)) = 120"
    by (simp add: ex_long_tok_def mk_token_def ex_lower_def)
  then have "ex_lower (tok_text ex_long_tok) \<notin> vocab ex_self"
    by (auto simp: ex_self_def)
  then have "is_misspell ex_lower ex_self ex_long_tok"
    by (simp add: is_misspell_def ex_long_tok_def mk_token_def)
  then have mis: "misspellIdentify ex_lower ex_self ex_long_doc = ([ex_long_tok], ex_long_doc)"
    by (simp add: misspellIdentify_def ex_long_doc_def new_doc_def)
  have gen: "candidateGenerator ex_self ex_predict ex_long_doc [ex_long_tok] 10 =
          (ex_long_dict,
           ex_long_doc\<lparr>performed_spellCheck := True,
              score_spellCheck := Some [(ex_long_tok, [(''million'', 0.9), (''millions'', 0.05)])]\<rparr>,
           [''[MASK]''])"
    by (simp add: candidateGenerator_def ex_long_dict_def ex_predict_def ex_long_doc_def
        new_doc_def ex_self_def ex_long_tok_def mk_token_def)
  have "\<forall>c\<in>set [''million'', ''millions'']. 100 \<le> editdistance_eval (tok_text ex_long_tok) c"
    using editdistance_lower[of "tok_text ex_long_tok" "''million''"]
          editdistance_lower[of "tok_text ex_long_tok" "''millions''"]
    by (simp add: ex_long_tok_def mk_token_def)
  from rank_candidates_unchanged[OF this, of "[]"]
  have rank: "candidateRanking ex_long_dict = []"
    by (simp add: candidateRanking_def ex_long_dict_def)
  show ?thesis
    by (simp add: call_def mis gen rank) (simp add: ex_long_doc_def new_doc_def)
qed

subsection \<open>The guard of check\<close>

text \<open>For a string, whatever its length, \<^verbatim>\<open>check\<close> never returns the invalid-query pair.\<close>

lemma check_str_never_invalid:
  "check lower self nlp predict (PyStr s) \<noteq> Inr (InvalidQuery msg q, calls)"
  by (simp add: check_def split: prod.splits sum.splits)

text \<open>
  Claim C8, at the empty string. The guard of \<^verbatim>\<open>check\<close> is
  \<^verbatim>\<open>type(query) != str and len(query) == 0\<close>, which is false for every string; the empty
  string is tokenized and classified, and \<^verbatim>\<open>check\<close> returns the empty updated query with
  the document instead of the invalid-query message.
\<close>

theorem check_empty_string_not_rejected:
  "check ex_lower ex_self ex_nlp ex_predict (PyStr []) = Inr (Checked [] (ex_nlp []), [])"
  by (simp add: check_def ex_nlp_def misspellIdentify_def new_doc_def)

section \<open>Properties of doc_suggestions_spellCheck\<close>

text \<open>Writing a key that is absent appends it; changing the entry of a key is an update.\<close>

lemma update_absent: "map_of al k = None \<Longrightarrow> AList.update k v al = al @ [(k, v)]"
  by (induction al) (auto split: if_splits)

lemma map_entry_present:
  "map_of al k = Some v \<Longrightarrow> AList.map_entry k f al = AList.update k (f v) al"
  by (induction al) (auto split: if_splits)

text \<open>The inner loop appends the candidate strings to the list of the token.\<close>

lemma suggestions_inner_append:
  "map_of response token = Some l \<Longrightarrow>
   suggestions_inner token scores response = AList.update token (l @ map fst scores) response"
proof (induction scores arbitrary: response l)
  case Nil
  then show ?case by (simp add: update_triv)
next
  case (Cons s scores)
  let ?r = "AList.update token (l @ [fst s]) response"
  have "map_of ?r token = Some (l @ [fst s])" by (simp add: update_conv')
  from Cons.IH[OF this] show ?case
    by (simp add: map_entry_present[OF Cons.prems])
qed

text \<open>The outer loop appends one entry without scores for every entry of the score dictionary.\<close>

lemma suggestions_loop_map:
  "distinct (map fst score) \<Longrightarrow> fst ` set score \<inter> fst ` set response = {} \<Longrightarrow>
   suggestions_loop score response = response @ map (\<lambda>(token, l). (token, map fst l)) score"
proof (induction score arbitrary: response)
  case Nil
  then show ?case by simp
next
  case (Cons p score)
  obtain token l where p: "p = (token, l)" by (cases p)
  from Cons.prems p have absent: "map_of response token = None"
    by (auto simp: map_of_eq_None_iff)
  let ?r0 = "response @ [(token, [])]"
  have "map_of ?r0 token = Some []" using absent by (simp add: map_add_def)
  from suggestions_inner_append[OF this, of l]
  have inner: "suggestions_inner token l ?r0 = response @ [(token, map fst l)]"
    using update_absent[OF absent] by (metis AList.update_last append_Nil)
  have d: "distinct (map fst score)" using Cons.prems by simp
  have "fst ` set score \<inter> fst ` set (response @ [(token, map fst l)]) = {}"
    using Cons.prems p by auto
  from Cons.IH[OF d this] show ?case
    by (simp add: p absent update_absent inner)
qed

text \<open>
  Claim C9. The suggestions of a document are its score dictionary without the scores: the
  same tokens in the same order, each with the candidate strings of its scored candidates
  in the same order. When no score dictionary is stored, the suggestions are empty. (The
  keys of a dictionary are distinct.)
\<close>

theorem doc_suggestions_drop_scores:
  assumes "case score_spellCheck doc of None \<Rightarrow> True | Some score \<Rightarrow> distinct (map fst score)"
  shows "doc_suggestions_spellCheck doc =
           (case score_spellCheck doc of
              None \<Rightarrow> []
            | Some score \<Rightarrow> map (\<lambda>(token, l). (token, map fst l)) score)"
  using assms
  by (auto simp: doc_suggestions_spellCheck_def suggestions_loop_map split: option.splits)

theorem doc_suggestions_drop_scores_witness:
  "(case score_spellCheck ex_scored_doc of None \<Rightarrow> True | Some score \<Rightarrow> distinct (map fst score))
   \<and> doc_suggestions_spellCheck ex_scored_doc = [(ex_tok, [''the'', ''ten'', ''tea''])]"
proof -
  have h: "case score_spellCheck ex_scored_doc of None \<Rightarrow> True
           | Some score \<Rightarrow> distinct (map fst score)"
    by (simp add: ex_scored_doc_def)
  from doc_suggestions_drop_scores[OF h] h show ?thesis
    by (simp add: ex_scored_doc_def)
qed

end
